theory Spec2Isabelle
  imports Main
begin

section \<open>JavaScript values\<close>

text \<open>
  The preview handles values of type \<^verbatim>\<open>any\<close>: the result of \<^verbatim>\<open>JSON.parse\<close> on the
  previewed document, and whatever reading a property of such a value gives. A parsed
  document is built from \<open>JNull\<close>, \<open>JBool\<close>, \<open>JNum\<close>, \<open>JStr\<close>, \<open>JArr\<close> and \<open>JObj\<close>.
  Reading a property can also give \<^verbatim>\<open>undefined\<close> (\<open>JUndefined\<close>) or a method inherited
  from a prototype (\<open>JFun\<close>). The program never computes with numbers, so a number
  carries an integer only to tell numbers apart. An object is the association list of its
  own properties; the first binding of a key is the property.
\<close>

datatype jsval =
    JUndefined
  | JNull
  | JBool bool
  | JNum int
  | JStr string
  | JArr "jsval list"
  | JObj "(string \<times> jsval) list"
  | JFun

text \<open>
  What the code can throw: a \<^verbatim>\<open>TypeError\<close> (a property of \<^verbatim>\<open>null\<close> or
  \<^verbatim>\<open>undefined\<close> is read, or something that is not a function is called), a
  \<^verbatim>\<open>SyntaxError\<close> of a parser, and an error of the file system.
\<close>

datatype error = TypeError | SyntaxError | FsError

text \<open>Sequencing of computations that can throw: the first exception wins.\<close>

abbreviation bindE :: "error + 'a \<Rightarrow> ('a \<Rightarrow> error + 'b) \<Rightarrow> error + 'b" where
  "bindE m f \<equiv> (case m of Inl e \<Rightarrow> Inl e | Inr x \<Rightarrow> f x)"

text \<open>
  A loop body run on every element in order (\<^verbatim>\<open>forEach\<close>, \<^verbatim>\<open>filter\<close>): the
  results of the iterations up to the first one that throws.
\<close>

fun sequenceE :: "(error + 'a) list \<Rightarrow> error + 'a list" where
  "sequenceE [] = Inr []"
| "sequenceE (Inl e # ms) = Inl e"
| "sequenceE (Inr x # ms) = bindE (sequenceE ms) (\<lambda>xs. Inr (x # xs))"

fun filterE :: "('a \<Rightarrow> error + bool) \<Rightarrow> 'a list \<Rightarrow> error + 'a list" where
  "filterE keep [] = Inr []"
| "filterE keep (x # xs) =
     bindE (keep x) (\<lambda>b. bindE (filterE keep xs) (\<lambda>ys. Inr (if b then x # ys else ys)))"

text \<open>
  \<^verbatim>\<open>v[k]\<close> for the property names the program reads: \<^verbatim>\<open>data\<close>, \<^verbatim>\<open>transform\<close>,
  \<^verbatim>\<open>layer\<close>, \<^verbatim>\<open>concat\<close>, \<^verbatim>\<open>hconcat\<close>, \<^verbatim>\<open>vconcat\<close>, \<^verbatim>\<open>url\<close>, \<^verbatim>\<open>from\<close>,
  \<^verbatim>\<open>spec\<close> and \<^verbatim>\<open>uri\<close>. Reading a property of \<^verbatim>\<open>null\<close> or \<^verbatim>\<open>undefined\<close>
  throws. An object gives its own property, and \<^verbatim>\<open>undefined\<close> when it has none
  (none of these names is a member of \<^verbatim>\<open>Object.prototype\<close>). Of these names, arrays and
  strings inherit \<^verbatim>\<open>concat\<close> from their prototypes, and nothing else; numbers, booleans
  and functions have none of them.
\<close>

fun getProp :: "jsval \<Rightarrow> string \<Rightarrow> error + jsval" where
  "getProp JUndefined k = Inl TypeError"
| "getProp JNull k = Inl TypeError"
| "getProp (JObj kvs) k = Inr (case map_of kvs k of None \<Rightarrow> JUndefined | Some v \<Rightarrow> v)"
| "getProp (JArr xs) k = Inr (if k = ''concat'' then JFun else JUndefined)"
| "getProp (JStr s) k = Inr (if k = ''concat'' then JFun else JUndefined)"
| "getProp v k = Inr JUndefined"

text \<open>
  \<^verbatim>\<open>xs.concat(v)\<close>: the elements of \<open>v\<close> are appended when \<open>v\<close> is an array, and
  \<open>v\<close> itself otherwise (\<^verbatim>\<open>undefined\<close> included).
\<close>

definition concat_js :: "jsval list \<Rightarrow> jsval \<Rightarrow> jsval list" where
  "concat_js xs v = (case v of JArr ys \<Rightarrow> xs @ ys | _ \<Rightarrow> xs @ [v])"

text \<open>
  \<^verbatim>\<open>v.forEach(...)\<close> needs an array: on \<^verbatim>\<open>null\<close> the property read throws, on every
  other value \<^verbatim>\<open>forEach\<close> is \<^verbatim>\<open>undefined\<close> and the call throws.
\<close>

fun elements :: "jsval \<Rightarrow> error + jsval list" where
  "elements (JArr xs) = Inr xs"
| "elements v = Inl TypeError"

section \<open>The walk over the visualization spec\<close>

text \<open>
  The data part of \<^verbatim>\<open>getDataUrls\<close> (the block under \<^verbatim>\<open>if (data !== undefined)\<close>): of an
  array, the \<^verbatim>\<open>url\<close> of every element that has one, after the filter has run over the
  whole array; of anything else, its \<^verbatim>\<open>url\<close> when it has one.
\<close>

definition hasUrl :: "jsval \<Rightarrow> error + bool" where
  "hasUrl d = bindE (getProp d ''url'') (\<lambda>u. Inr (u \<noteq> JUndefined))"

definition dataRefs :: "jsval \<Rightarrow> error + jsval list" where
  "dataRefs data =
     (if data \<noteq> JUndefined then
        (case data of
           JArr ds \<Rightarrow>
             bindE (filterE hasUrl ds) (\<lambda>ds'. sequenceE (map (\<lambda>d. getProp d ''url'') ds'))
         | _ \<Rightarrow>
             bindE (getProp data ''url'') (\<lambda>u. if u \<noteq> JUndefined then Inr [u] else Inr []))
      else Inr [])"

text \<open>
  The measure of the recursion: \<^verbatim>\<open>undefined\<close> is the smallest value, an inherited
  method comes next, and every other value is larger than each of its parts.
\<close>

fun weight :: "jsval \<Rightarrow> nat" where
  "weight JUndefined = 0"
| "weight JFun = 1"
| "weight (JArr xs) = 2 + sum_list (map weight xs)"
| "weight (JObj kvs) = 2 + sum_list (map (\<lambda>kv. weight (snd kv)) kvs)"
| "weight v = 2"

lemma weight_element: "x \<in> set xs \<Longrightarrow> weight x < weight (JArr xs)"
  by (induction xs) auto

lemma weight_map_of: "map_of kvs k = Some v \<Longrightarrow> weight v < weight (JObj kvs)"
  by (induction kvs) (auto split: if_splits)

lemma weight_getProp: "getProp s k = Inr v \<Longrightarrow> weight v < weight s"
  by (cases s) (auto split: option.splits if_splits dest: weight_map_of)

lemma weight_concat_js:
  assumes "\<forall>y \<in> set xs. weight y < n" and "weight v < n"
  shows "\<forall>x \<in> set (concat_js xs v). weight x < n"
proof (cases v)
  case (JArr ys)
  have "weight y < weight v" if "y \<in> set ys" for y
    using that JArr weight_element [of y ys] by simp
  with assms JArr show ?thesis
    by (fastforce simp: concat_js_def)
qed (use assms in \<open>auto simp: concat_js_def\<close>)

lemma weight_layers:
  assumes l: "getProp spec ''layer'' = Inr l1" "getProp spec ''concat'' = Inr l2"
    "getProp spec ''hconcat'' = Inr l3" "getProp spec ''vconcat'' = Inr l4"
    and x: "x \<in> set (concat_js (concat_js (concat_js (concat_js [] l1) l2) l3) l4)"
  shows "weight x < weight spec"
proof -
  have "\<forall>y \<in> set []. weight y < weight spec" by simp
  note weight_concat_js [OF this weight_getProp [OF l(1)]]
  note weight_concat_js [OF this weight_getProp [OF l(2)]]
  note weight_concat_js [OF this weight_getProp [OF l(3)]]
  note weight_concat_js [OF this weight_getProp [OF l(4)]]
  with x show ?thesis by blast
qed

lemma weight_from:
  assumes "getProp spec ''transform'' = Inr transforms" and "elements transforms = Inr ts"
    and "t \<in> set ts" and "getProp t ''from'' = Inr f"
  shows "weight f < weight spec"
proof -
  from assms(2) have "transforms = JArr ts" by (cases transforms) auto
  with assms show ?thesis
    using weight_getProp [of spec "''transform''" transforms] weight_getProp [of t "''from''" f]
      weight_element [of t ts] by simp
qed

text \<open>
  \<^verbatim>\<open>getDataUrls\<close>. The four composition members are concatenated into \<^verbatim>\<open>layers\<close>
  before anything is collected; \<^verbatim>\<open>layers\<close> is always an array, so the test before its
  loop always holds. A member that is absent contributes \<^verbatim>\<open>undefined\<close> as an element.
\<close>

function getDataUrls :: "jsval \<Rightarrow> error + jsval list" where
  "getDataUrls spec =
     (if spec = JUndefined then Inr []
      else
        bindE (getProp spec ''data'') (\<lambda>data.
        bindE (getProp spec ''transform'') (\<lambda>transforms.
        bindE (getProp spec ''layer'') (\<lambda>l1.
        bindE (getProp spec ''concat'') (\<lambda>l2.
        bindE (getProp spec ''hconcat'') (\<lambda>l3.
        bindE (getProp spec ''vconcat'') (\<lambda>l4.
        bindE (dataRefs data) (\<lambda>dataUrls.
        bindE (sequenceE (map getDataUrls (concat_js (concat_js (concat_js (concat_js [] l1) l2) l3) l4)))
          (\<lambda>layerUrls.
        if transforms \<noteq> JUndefined then
          bindE (elements transforms) (\<lambda>ts.
          bindE (sequenceE (map (\<lambda>transformData.
                   bindE (getProp transformData ''from'') getDataUrls) ts))
            (\<lambda>fromUrls. Inr (dataUrls @ concat layerUrls @ concat fromUrls)))
        else Inr (dataUrls @ concat layerUrls))))))))))"
  by pat_completeness (erule arg_cong)
termination
  by (relation "measure weight") (auto intro: weight_layers weight_from)

declare getDataUrls.simps [simp del]

section \<open>The editor and the file system\<close>

text \<open>
  The editor's API, node's \<^verbatim>\<open>path\<close> and \<^verbatim>\<open>fs\<close> modules and \<^verbatim>\<open>JSON.parse\<close> are
  collaborators of the program, not parts of it. A \<open>host\<close> holds what they answer. A
  \<^verbatim>\<open>Uri\<close> is modelled by the two components the program reads. Calls of the logger
  write to an output channel and change nothing else; they are left out, except for an
  argument whose evaluation can throw.
\<close>

record vsUri =
  scheme :: string
  fsPath :: string

text \<open>
  An entry of the file system: a file with its text, or something that exists and
  cannot be read as a file (a directory, a file without read permission).
\<close>

datatype fsnode = File string | Unreadable

record webviewPanel =
  panelId :: nat
  viewColumn :: nat
  webviewHtml :: string

record webviewOptions =
  enableScripts :: bool
  enableCommandUris :: bool
  retainContextWhenHidden :: bool
  localResourceRoots :: "vsUri list"

record template =
  content :: string

record host =
  path_join :: "string \<Rightarrow> string \<Rightarrow> string"
  path_dirname :: "string \<Rightarrow> string"
  path_basename :: "string \<Rightarrow> string"
  files :: "string \<Rightarrow> fsnode option"
  getWorkspaceFolder :: "vsUri \<Rightarrow> vsUri option"
  openTextDocument :: "vsUri \<Rightarrow> string option"
  JSON_parse :: "string \<Rightarrow> error + jsval"
  Uri_parse :: "jsval \<Rightarrow> error + vsUri"
  Uri_toString :: "vsUri \<Rightarrow> bool \<Rightarrow> string"
  replaceScripts :: "string \<Rightarrow> string \<Rightarrow> string"
  createWebviewPanel :: "string \<Rightarrow> string \<Rightarrow> nat \<Rightarrow> webviewOptions \<Rightarrow> webviewPanel"

text \<open>
  \<open>files\<close> is the file system by absolute path; \<open>getWorkspaceFolder\<close> gives the uri of
  the workspace folder that contains a uri, if there is one; \<open>openTextDocument\<close> gives
  the text of the document, or nothing when the editor cannot open it;
  \<open>replaceScripts c s\<close> is \<^verbatim>\<open>c.replace(/\{scripts\}/g, s)\<close>.
\<close>

definition Uri_file :: "string \<Rightarrow> vsUri" where
  "Uri_file p = \<lparr>scheme = ''file'', fsPath = p\<rparr>"

record dataPreview =
  extensionPath :: string
  uri :: vsUri
  previewUri :: vsUri
  fileName :: string
  title :: string
  html :: string
  panel :: webviewPanel

section \<open>The preview panel\<close>

text \<open>
  \<^verbatim>\<open>getLocalResourceRoots\<close> reads two fields of the preview, \<^verbatim>\<open>_extensionPath\<close> and
  \<^verbatim>\<open>uri\<close>; it runs inside the constructor, so it takes them as arguments. An empty
  scheme is falsy.
\<close>

definition getLocalResourceRoots :: "host \<Rightarrow> string \<Rightarrow> vsUri \<Rightarrow> vsUri list" where
  "getLocalResourceRoots h extPath u =
     (let roots =
        (case getWorkspaceFolder h u of
           Some folder \<Rightarrow> [folder]
         | None \<Rightarrow>
             if scheme u = [] \<or> scheme u = ''file''
             then [Uri_file (path_dirname h (fsPath u))]
             else [])
      in roots @ [Uri_file (path_join h extPath ''scripts'')])"

definition getWebviewOptions :: "host \<Rightarrow> string \<Rightarrow> vsUri \<Rightarrow> webviewOptions" where
  "getWebviewOptions h extPath u =
     \<lparr>enableScripts = True, enableCommandUris = True, retainContextWhenHidden = True,
      localResourceRoots = getLocalResourceRoots h extPath u\<rparr>"

text \<open>
  The constructor, with \<^verbatim>\<open>initWebview\<close> and \<^verbatim>\<open>configure\<close>: a panel is created only when
  none is passed, and the html of the preview is written to the panel's webview. The
  event handlers it registers change no field of the preview. The last character of the
  title of a data preview is U+1F238, here in UTF-8.
\<close>

definition DataPreview :: "host \<Rightarrow> string \<Rightarrow> string \<Rightarrow> vsUri \<Rightarrow> nat \<Rightarrow> template \<Rightarrow>
    webviewPanel option \<Rightarrow> dataPreview" where
  "DataPreview h viewType extPath u viewCol tmpl panelOpt =
     (let name = path_basename h (fsPath u);
          ttl = (if viewType = ''data.preview''
                 then ''Data Preview '' @ name @ '' '' @ [CHR 0xF0, CHR 0x9F, CHR 0x88, CHR 0xB8]
                 else ''Data Help'');
          scriptsPath = Uri_toString h
            ((Uri_file (path_join h extPath ''scripts''))\<lparr>scheme := ''vscode-resource''\<rparr>) True;
          page = replaceScripts h (content tmpl) scriptsPath;
          pnl = (case panelOpt of
                   Some existing \<Rightarrow> existing
                 | None \<Rightarrow> createWebviewPanel h viewType ttl viewCol (getWebviewOptions h extPath u))
      in \<lparr>extensionPath = extPath, uri = u, previewUri = u\<lparr>scheme := ''data''\<rparr>,
          fileName = name, title = ttl, html = page,
          panel = pnl\<lparr>webviewHtml := page\<rparr>\<rparr>)"

text \<open>
  \<^verbatim>\<open>getFileData\<close>: the text of the file beside the previewed document, \<^verbatim>\<open>null\<close> (here
  \<open>None\<close>) when nothing exists at the path; reading what exists and is not a readable file
  throws.
\<close>

definition dataFilePath :: "host \<Rightarrow> dataPreview \<Rightarrow> string \<Rightarrow> string" where
  "dataFilePath h p filePath = path_join h (path_dirname h (fsPath (uri p))) filePath"

definition getFileData :: "host \<Rightarrow> dataPreview \<Rightarrow> string \<Rightarrow> error + string option" where
  "getFileData h p filePath =
     (case files h (dataFilePath h p filePath) of
        None \<Rightarrow> Inr None
      | Some (File txt) \<Rightarrow> Inr (Some txt)
      | Some Unreadable \<Rightarrow> Inl FsError)"

text \<open>\<^verbatim>\<open>s.startsWith(prefix)\<close> on strings.\<close>

definition startsWith :: "string \<Rightarrow> string \<Rightarrow> bool" where
  "startsWith s pre = (take (length pre) s = pre)"

text \<open>
  \<^verbatim>\<open>url => !url.startsWith('http')\<close>, on whatever \<^verbatim>\<open>getDataUrls\<close> collected: only a
  string has the method.
\<close>

fun isLocalUrl :: "jsval \<Rightarrow> error + bool" where
  "isLocalUrl (JStr s) = Inr (\<not> startsWith s ''http'')"
| "isLocalUrl v = Inl TypeError"

text \<open>
  \<^verbatim>\<open>dataFiles[url] = fileData\<close> on an object literal: the key \<^verbatim>\<open>__proto__\<close> is the
  prototype accessor, and assigning a string to it changes nothing.
\<close>

definition setProperty :: "(string \<rightharpoonup> string) \<Rightarrow> string \<Rightarrow> string \<Rightarrow> (string \<rightharpoonup> string)" where
  "setProperty obj k v = (if k = ''__proto__'' then obj else obj(k \<mapsto> v))"

text \<open>
  The loop of \<^verbatim>\<open>getData\<close> over the local urls; every element passed the filter, so it
  is a string. Only a truthy file content (a text that is not empty) is stored.
\<close>

fun loadFiles :: "host \<Rightarrow> dataPreview \<Rightarrow> jsval list \<Rightarrow> (string \<rightharpoonup> string) \<Rightarrow>
    error + (string \<rightharpoonup> string)" where
  "loadFiles h p [] dataFiles = Inr dataFiles"
| "loadFiles h p (JStr url # urls) dataFiles =
     bindE (getFileData h p url) (\<lambda>fileData.
       loadFiles h p urls
         (case fileData of
            Some txt \<Rightarrow> if txt \<noteq> [] then setProperty dataFiles url txt else dataFiles
          | None \<Rightarrow> dataFiles))"
| "loadFiles h p (v # urls) dataFiles = Inl TypeError"

definition getData :: "host \<Rightarrow> dataPreview \<Rightarrow> jsval \<Rightarrow> error + (string \<rightharpoonup> string)" where
  "getData h p spec =
     bindE (getDataUrls spec) (\<lambda>dataUrls.
     bindE (getProp spec ''spec'') (\<lambda>nested.
     bindE (getDataUrls nested) (\<lambda>nestedUrls.
     bindE (filterE isLocalUrl (dataUrls @ nestedUrls)) (\<lambda>localUrls.
       loadFiles h p localUrls Map.empty))))"

text \<open>The entry of a url in the map that \<^verbatim>\<open>getData\<close> returns.\<close>

definition entry :: "error + (string \<rightharpoonup> string) \<Rightarrow> string \<Rightarrow> error + string option" where
  "entry result url = bindE result (\<lambda>dataFiles. Inr (dataFiles url))"

text \<open>What the program asks of the editor, in the order of the calls.\<close>

datatype message =
    RefreshMessage string string string "string \<rightharpoonup> string"
  | ErrorMessage error

datatype hostCall =
    Reveal nat bool
  | PostMessage message
  | ManagerAdd dataPreview
  | ShowErrorMessage string error
  | ReadDataFile string
  | LoadData jsval

text \<open>
  \<^verbatim>\<open>refresh\<close>: the panel is revealed, and when the document opens, its text is parsed
  and the data loaded inside one \<^verbatim>\<open>try\<close>; the fields of the refresh message are
  \<^verbatim>\<open>fileName\<close>, \<^verbatim>\<open>uri\<close>, \<^verbatim>\<open>spec\<close> (the text) and \<^verbatim>\<open>data\<close>.
\<close>

definition refresh :: "host \<Rightarrow> dataPreview \<Rightarrow> hostCall list" where
  "refresh h p =
     Reveal (viewColumn (panel p)) True #
     (case openTextDocument h (uri p) of
        None \<Rightarrow> []
      | Some vegaSpec \<Rightarrow>
          (case bindE (JSON_parse h vegaSpec) (getData h p) of
             Inr data \<Rightarrow>
               [PostMessage (RefreshMessage (fileName p) (Uri_toString h (uri p) False) vegaSpec data)]
           | Inl err \<Rightarrow> [PostMessage (ErrorMessage err)]))"

section \<open>The serializer\<close>

record serializer =
  sViewType :: string
  sExtensionPath :: string
  sTemplate :: template

text \<open>
  \<^verbatim>\<open>v.toString()\<close> as a call: \<^verbatim>\<open>null\<close> and \<^verbatim>\<open>undefined\<close> have no properties, and an
  own property \<^verbatim>\<open>toString\<close> of a parsed object is not a function.
\<close>

fun callToString :: "jsval \<Rightarrow> error + unit" where
  "callToString JUndefined = Inl TypeError"
| "callToString JNull = Inl TypeError"
| "callToString (JObj kvs) = (if map_of kvs ''toString'' = None then Inr () else Inl TypeError)"
| "callToString v = Inr ()"

text \<open>
  \<^verbatim>\<open>deserializeWebviewPanel\<close>: the log line evaluates \<^verbatim>\<open>state.uri.toString()\<close> first. An
  exception rejects the promise the function returns.
\<close>

definition deserializeWebviewPanel :: "host \<Rightarrow> serializer \<Rightarrow> webviewPanel \<Rightarrow> jsval \<Rightarrow>
    error + hostCall list" where
  "deserializeWebviewPanel h ser webviewPanel state =
     bindE (getProp state ''uri'') (\<lambda>stateUri.
     bindE (callToString stateUri) (\<lambda>_.
     bindE (Uri_parse h stateUri) (\<lambda>parsed.
       Inr [ManagerAdd (DataPreview h (sViewType ser) (sExtensionPath ser) parsed
              (viewColumn webviewPanel) (sTemplate ser) (Some webviewPanel))])))"

section \<open>The JSON5 data provider\<close>

text \<open>
  \<^verbatim>\<open>fileUtils.readDataFile\<close>, \<^verbatim>\<open>json5.parse\<close> and \<^verbatim>\<open>jsonUtils.convertJsonData\<close>
  belong to other modules; the provider is modelled over any three such functions, of
  which the first two can throw.
\<close>

record providerDeps =
  readDataFile :: "string \<Rightarrow> error + string"
  json5_parse :: "string \<Rightarrow> error + jsval"
  convertJsonData :: "jsval \<Rightarrow> jsval"

text \<open>
  \<^verbatim>\<open>Json5DataProvider.getData\<close>: \<^verbatim>\<open>data\<close> starts as the empty array and keeps that value
  when the \<^verbatim>\<open>try\<close> block throws; the callback runs after the \<^verbatim>\<open>try\<close> statement.
\<close>

definition Json5_getData :: "providerDeps \<Rightarrow> string \<Rightarrow> jsval \<Rightarrow> hostCall list" where
  "Json5_getData deps dataUrl parseOptions =
     ReadDataFile dataUrl #
     (case bindE (readDataFile deps dataUrl) (json5_parse deps) of
        Inr data \<Rightarrow> [LoadData (convertJsonData deps data)]
      | Inl err \<Rightarrow> [ShowErrorMessage dataUrl err, LoadData (convertJsonData deps (JArr []))])"

definition getDataTableNames :: "string \<Rightarrow> string list" where
  "getDataTableNames dataUrl = []"

definition getDataSchema :: "string \<Rightarrow> jsval" where
  "getDataSchema dataUrl = JNull"

section \<open>Subtrees\<close>

text \<open>The proper subtrees of a value: its elements or members, and their subtrees.\<close>

fun parts :: "jsval \<Rightarrow> jsval list" where
  "parts (JArr xs) = xs @ concat (map parts xs)"
| "parts (JObj kvs) = map snd kvs @ concat (map (\<lambda>kv. parts (snd kv)) kvs)"
| "parts v = []"

text \<open>
  A value is walkable when no \<^verbatim>\<open>null\<close> (and no \<^verbatim>\<open>undefined\<close>) occurs in it and every
  \<^verbatim>\<open>transform\<close> member of an object in it is an array.
\<close>

fun walkable :: "jsval \<Rightarrow> bool" where
  "walkable JUndefined = False"
| "walkable JNull = False"
| "walkable (JArr xs) = (\<forall>x \<in> set xs. walkable x)"
| "walkable (JObj kvs) =
     ((\<forall>kv \<in> set kvs. walkable (snd kv)) \<and>
      (case map_of kvs ''transform'' of
         None \<Rightarrow> True
       | Some t \<Rightarrow> (case t of JArr ts \<Rightarrow> True | _ \<Rightarrow> False)))"
| "walkable v = True"

text \<open>
  The member \<^verbatim>\<open>spec\<close> followed \<open>n\<close> times from the root: the nested spec of a view
  composition at depth \<open>n\<close>.
\<close>

fun nestedSpec :: "nat \<Rightarrow> jsval \<Rightarrow> error + jsval" where
  "nestedSpec 0 spec = Inr spec"
| "nestedSpec (Suc n) spec = bindE (getProp spec ''spec'') (nestedSpec n)"

section \<open>Values for the examples\<close>

text \<open>
  A spec with a data reference of its own, a layer whose data is an array, and a lookup
  transform; a small host whose directory \<^verbatim>\<open>/work\<close> holds three files, one of them
  empty.
\<close>

definition demoLayer :: jsval where
  "demoLayer = JObj [(''data'', JArr [JObj [(''url'', JStr ''b.csv'')], JObj [(''name'', JStr ''x'')]])]"

definition demoLookup :: jsval where
  "demoLookup =
     JObj [(''lookup'', JStr ''k''), (''from'', JObj [(''data'', JObj [(''url'', JStr ''c.csv'')])])]"

definition demoSpec :: jsval where
  "demoSpec =
     JObj [(''data'', JObj [(''url'', JStr ''a.csv'')]),
           (''layer'', JArr [demoLayer]),
           (''transform'', JArr [demoLookup, JObj [(''filter'', JStr ''f'')]])]"

text \<open>
  A spec whose data reference lies two \<^verbatim>\<open>spec\<close> members deep, one whose reference lies
  one deep, and a spec that refers to an existing file, a missing file, a remote url, an
  empty file and a file named \<^verbatim>\<open>__proto__\<close>.
\<close>

definition deepSpec :: jsval where
  "deepSpec = JObj [(''spec'', JObj [(''spec'', JObj [(''data'', JObj [(''url'', JStr ''a.csv'')])])])]"

definition mixedSpec :: jsval where
  "mixedSpec =
     JObj [(''data'', JArr [JObj [(''url'', JStr ''a.csv'')], JObj [(''url'', JStr ''missing.csv'')],
                            JObj [(''url'', JStr ''http://example.com/r.csv'')],
                            JObj [(''url'', JStr ''empty.csv'')], JObj [(''url'', JStr ''__proto__'')]])]"

definition nestedDemo :: jsval where
  "nestedDemo = JObj [(''spec'', JObj [(''data'', JObj [(''url'', JStr ''a.csv'')])])]"

text \<open>A layered spec whose layer sets its data to \<^verbatim>\<open>null\<close>.\<close>

definition nullDataSpec :: jsval where
  "nullDataSpec =
     JObj [(''data'', JObj [(''url'', JStr ''a.csv'')]),
           (''layer'', JArr [JObj [(''mark'', JStr ''rule''), (''data'', JNull)]])]"

definition demoUri :: vsUri where
  "demoUri = \<lparr>scheme = ''file'', fsPath = ''/work/chart.vl.json''\<rparr>"

definition demoPanel :: webviewPanel where
  "demoPanel = \<lparr>panelId = 7, viewColumn = 2, webviewHtml = []\<rparr>"

definition demoHost :: host where
  "demoHost =
     \<lparr>path_join = (\<lambda>dir name. dir @ ''/'' @ name),
      path_dirname = (\<lambda>path. ''/work''),
      path_basename = (\<lambda>path. ''chart.vl.json''),
      files = map_of [(''/work/a.csv'', File ''x,y''), (''/work/empty.csv'', File []),
                      (''/work/__proto__'', File ''p'')],
      getWorkspaceFolder = (\<lambda>u. None),
      openTextDocument = (\<lambda>u. Some ''{''),
      JSON_parse = (\<lambda>s. Inl SyntaxError),
      Uri_parse = (\<lambda>v. case v of JStr s \<Rightarrow> Inr \<lparr>scheme = ''file'', fsPath = s\<rparr> | _ \<Rightarrow> Inl TypeError),
      Uri_toString = (\<lambda>u skipEncoding. scheme u @ '':'' @ fsPath u),
      replaceScripts = (\<lambda>page scripts. page),
      createWebviewPanel = (\<lambda>viewType ttl col opts. \<lparr>panelId = 0, viewColumn = col, webviewHtml = []\<rparr>)\<rparr>"

definition demoPreview :: dataPreview where
  "demoPreview =
     DataPreview demoHost ''data.preview'' ''/ext'' demoUri 2 \<lparr>content = ''<html>''\<rparr> (Some demoPanel)"

definition demoDeps :: providerDeps where
  "demoDeps =
     \<lparr>readDataFile = (\<lambda>url. if url = ''ok.json5'' then Inr ''[1]''
                            else if url = ''bad.json5'' then Inr ''[1'' else Inl FsError),
      json5_parse = (\<lambda>txt. if txt = ''[1]'' then Inr (JArr [JNum 1]) else Inl SyntaxError),
      convertJsonData = (\<lambda>v. v)\<rparr>"

definition demoSerializer :: serializer where
  "demoSerializer =
     \<lparr>sViewType = ''data.preview'', sExtensionPath = ''/ext'', sTemplate = \<lparr>content = ''<html>''\<rparr>\<rparr>"

definition demoState :: jsval where
  "demoState = JObj [(''uri'', JStr ''/work/chart.vl.json'')]"

section \<open>Auxiliary facts\<close>

lemma sequenceE_Inr: "sequenceE ms = Inr xs \<Longrightarrow> ms = map Inr xs"
proof (induction ms arbitrary: xs rule: sequenceE.induct)
  case 1
  then show ?case by simp
next
  case (2 e ms)
  then show ?case by simp
next
  case (3 x ms)
  then show ?case by (auto split: sum.splits)
qed

lemma sequenceE_map_Inr: "sequenceE (map Inr xs) = Inr xs"
  by (induction xs) auto

lemma map_Inr_member:
  assumes "map f ys = map Inr rs" and "y \<in> set ys"
  shows "\<exists>r. f y = Inr r \<and> r \<in> set rs"
proof -
  from assms(2) have "f y \<in> set (map f ys)" by simp
  with assms(1) show ?thesis by auto
qed

lemma filterE_Inr:
  "filterE keep xs = Inr ys \<Longrightarrow>
     ys = filter (\<lambda>x. keep x = Inr True) xs \<and> (\<forall>x \<in> set xs. \<exists>b. keep x = Inr b)"
proof (induction xs arbitrary: ys)
  case Nil
  then show ?case by simp
next
  case (Cons x xs)
  then show ?case by (auto split: sum.splits if_splits)
qed

lemma filterE_total:
  "(\<forall>x \<in> set xs. \<exists>b. keep x = Inr b) \<Longrightarrow> filterE keep xs = Inr (filter (\<lambda>x. keep x = Inr True) xs)"
  by (induction xs) auto

lemma dataRefs_object:
  assumes "dataRefs d = Inr us" and "\<forall>ds. d \<noteq> JArr ds" and "getProp d ''url'' = Inr u"
    and "u \<noteq> JUndefined"
  shows "us = [u]"
  using assms by (cases d) (auto simp: dataRefs_def split: if_splits)

lemma dataRefs_array:
  assumes "dataRefs (JArr ds) = Inr us"
  shows "map (\<lambda>d. getProp d ''url'') (filter (\<lambda>d. hasUrl d = Inr True) ds) = map Inr us"
  using assms by (auto simp: dataRefs_def split: sum.splits dest!: filterE_Inr sequenceE_Inr)

lemma dataRefs_array_member:
  assumes "dataRefs (JArr ds) = Inr us" and "d \<in> set ds" and "getProp d ''url'' = Inr u"
    and "u \<noteq> JUndefined"
  shows "u \<in> set us"
proof -
  from assms(3,4) have "hasUrl d = Inr True" by (simp add: hasUrl_def)
  with assms(2) have "d \<in> set (filter (\<lambda>d. hasUrl d = Inr True) ds)" by simp
  from map_Inr_member [OF dataRefs_array [OF assms(1)] this] assms(3) show ?thesis by auto
qed

lemma concat_js_mono: "set xs \<subseteq> set (concat_js xs v)"
  by (cases v) (auto simp: concat_js_def)

lemma concat_js_array: "set ys \<subseteq> set (concat_js xs (JArr ys))"
  by (auto simp: concat_js_def)

lemma concat_js_member:
  "x \<in> set (concat_js xs v) \<Longrightarrow> x \<in> set xs \<or> x = v \<or> (\<exists>ys. v = JArr ys \<and> x \<in> set ys)"
  by (cases v) (auto simp: concat_js_def)

text \<open>What a normal return of \<^verbatim>\<open>getDataUrls\<close> on a defined value is made of.\<close>

lemma getDataUrls_Inr:
  assumes "getDataUrls spec = Inr urls" and "spec \<noteq> JUndefined"
  obtains data transforms l1 l2 l3 l4 dU lU fU where
    "getProp spec ''data'' = Inr data" "getProp spec ''transform'' = Inr transforms"
    "getProp spec ''layer'' = Inr l1" "getProp spec ''concat'' = Inr l2"
    "getProp spec ''hconcat'' = Inr l3" "getProp spec ''vconcat'' = Inr l4"
    "dataRefs data = Inr dU"
    "map getDataUrls (concat_js (concat_js (concat_js (concat_js [] l1) l2) l3) l4) = map Inr lU"
    "transforms = JUndefined \<and> fU = [] \<or>
     (\<exists>ts. transforms = JArr ts \<and>
        map (\<lambda>t. bindE (getProp t ''from'') getDataUrls) ts = map Inr fU)"
    "urls = dU @ concat lU @ concat fU"
proof -
  from assms obtain data transforms l1 l2 l3 l4 dU lU where
    p: "getProp spec ''data'' = Inr data" "getProp spec ''transform'' = Inr transforms"
    "getProp spec ''layer'' = Inr l1" "getProp spec ''concat'' = Inr l2"
    "getProp spec ''hconcat'' = Inr l3" "getProp spec ''vconcat'' = Inr l4"
    "dataRefs data = Inr dU"
    and s: "sequenceE (map getDataUrls
              (concat_js (concat_js (concat_js (concat_js [] l1) l2) l3) l4)) = Inr lU"
    and r: "(if transforms \<noteq> JUndefined then
          bindE (elements transforms) (\<lambda>ts.
          bindE (sequenceE (map (\<lambda>transformData.
                   bindE (getProp transformData ''from'') getDataUrls) ts))
            (\<lambda>fromUrls. Inr (dU @ concat lU @ concat fromUrls)))
        else Inr (dU @ concat lU)) = Inr urls"
    by (subst (asm) getDataUrls.simps) (simp split: sum.splits)
  show thesis
  proof (cases "transforms = JUndefined")
    case True
    with r have "urls = dU @ concat lU @ concat []" by simp
    with p sequenceE_Inr [OF s] True show ?thesis by (intro that [where fU = "[]"]) auto
  next
    case False
    with r obtain ts fU where "elements transforms = Inr ts"
      "sequenceE (map (\<lambda>t. bindE (getProp t ''from'') getDataUrls) ts) = Inr fU"
      "urls = dU @ concat lU @ concat fU"
      by (auto split: sum.splits)
    moreover from this have "transforms = JArr ts" by (cases transforms) auto
    ultimately show ?thesis
      using p sequenceE_Inr [OF s] by (intro that [where fU = fU]) (auto dest: sequenceE_Inr)
  qed
qed

lemma parts_trans: "y \<in> set (parts z) \<Longrightarrow> x \<in> set (parts y) \<Longrightarrow> x \<in> set (parts z)"
proof (induction z rule: parts.induct)
  case (1 xs)
  then show ?case by auto
next
  case (2 kvs)
  then show ?case by fastforce
qed simp_all

lemma parts_getProp:
  "getProp s k = Inr v \<Longrightarrow> v = JUndefined \<or> v = JFun \<or> v \<in> set (parts s)"
  by (cases s) (auto split: option.splits if_splits dest: map_of_SomeD intro: rev_image_eqI)

lemma parts_layer:
  assumes "getProp spec k = Inr l" and "x = l \<or> (\<exists>ys. l = JArr ys \<and> x \<in> set ys)"
  shows "x = JUndefined \<or> x = JFun \<or> x \<in> set (parts spec)"
proof -
  from assms(2) show ?thesis
  proof
    assume "x = l"
    with parts_getProp [OF assms(1)] show ?thesis by simp
  next
    assume "\<exists>ys. l = JArr ys \<and> x \<in> set ys"
    then obtain ys where ys: "l = JArr ys" "x \<in> set ys" by blast
    with parts_getProp [OF assms(1)] have "l \<in> set (parts spec)" by simp
    moreover from ys have "x \<in> set (parts l)" by simp
    ultimately show ?thesis using parts_trans by blast
  qed
qed

lemma parts_layers:
  assumes l: "getProp spec ''layer'' = Inr l1" "getProp spec ''concat'' = Inr l2"
    "getProp spec ''hconcat'' = Inr l3" "getProp spec ''vconcat'' = Inr l4"
    and x: "x \<in> set (concat_js (concat_js (concat_js (concat_js [] l1) l2) l3) l4)"
  shows "x = JUndefined \<or> x = JFun \<or> x \<in> set (parts spec)"
proof -
  from x have "(x = l1 \<or> (\<exists>ys. l1 = JArr ys \<and> x \<in> set ys)) \<or>
      (x = l2 \<or> (\<exists>ys. l2 = JArr ys \<and> x \<in> set ys)) \<or>
      (x = l3 \<or> (\<exists>ys. l3 = JArr ys \<and> x \<in> set ys)) \<or>
      (x = l4 \<or> (\<exists>ys. l4 = JArr ys \<and> x \<in> set ys))"
    by (auto dest!: concat_js_member)
  with l show ?thesis using parts_layer by blast
qed

lemma parts_from:
  assumes "getProp spec ''transform'' = Inr transforms" and "elements transforms = Inr ts"
    and "t \<in> set ts" and "getProp t ''from'' = Inr f"
  shows "f = JUndefined \<or> f = JFun \<or> f \<in> set (parts spec)"
proof -
  from assms(2) have tr: "transforms = JArr ts" by (cases transforms) auto
  with parts_getProp [OF assms(1)] have "transforms \<in> set (parts spec)" by simp
  moreover from tr assms(3) have "t \<in> set (parts transforms)" by simp
  ultimately have "t \<in> set (parts spec)" by (rule parts_trans)
  with parts_getProp [OF assms(4)] show ?thesis using parts_trans by blast
qed

lemma layers_member:
  assumes "k \<in> {''layer'', ''concat'', ''hconcat'', ''vconcat''}"
    and "getProp spec k = Inr (JArr xs)"
    and "getProp spec ''layer'' = Inr l1" "getProp spec ''concat'' = Inr l2"
    "getProp spec ''hconcat'' = Inr l3" "getProp spec ''vconcat'' = Inr l4"
  shows "set xs \<subseteq> set (concat_js (concat_js (concat_js (concat_js [] l1) l2) l3) l4)"
proof -
  from assms consider "l1 = JArr xs" | "l2 = JArr xs" | "l3 = JArr xs" | "l4 = JArr xs"
    by auto
  then show ?thesis
  proof cases
    case 1
    then show ?thesis
      using concat_js_array [of xs "[]"] concat_js_mono [of "concat_js [] l1" l2]
        concat_js_mono [of "concat_js (concat_js [] l1) l2" l3]
        concat_js_mono [of "concat_js (concat_js (concat_js [] l1) l2) l3" l4]
      by blast
  next
    case 2
    then show ?thesis
      using concat_js_array [of xs "concat_js [] l1"]
        concat_js_mono [of "concat_js (concat_js [] l1) l2" l3]
        concat_js_mono [of "concat_js (concat_js (concat_js [] l1) l2) l3" l4]
      by blast
  next
    case 3
    then show ?thesis
      using concat_js_array [of xs "concat_js (concat_js [] l1) l2"]
        concat_js_mono [of "concat_js (concat_js (concat_js [] l1) l2) l3" l4]
      by blast
  next
    case 4
    then show ?thesis
      using concat_js_array [of xs "concat_js (concat_js (concat_js [] l1) l2) l3"]
      by blast
  qed
qed

text \<open>The walk returns on every walkable value.\<close>

lemma sequenceE_returns:
  "(\<forall>m \<in> set ms. \<exists>x. m = Inr x) \<Longrightarrow> \<exists>xs. sequenceE ms = Inr xs"
proof (induction ms)
  case Nil
  show ?case by simp
next
  case (Cons m ms)
  from Cons.prems obtain x where "m = Inr x" by auto
  moreover from Cons obtain xs where "sequenceE ms = Inr xs" by auto
  ultimately show ?case by simp
qed

lemma walkable_getProp:
  assumes "walkable s"
  shows "\<exists>v. getProp s k = Inr v \<and> (v = JUndefined \<or> walkable v)"
proof (cases s)
  case (JObj kvs)
  show ?thesis
  proof (cases "map_of kvs k")
    case None
    with JObj show ?thesis by simp
  next
    case (Some v)
    then have "(k, v) \<in> set kvs" by (rule map_of_SomeD)
    with assms JObj have "walkable v" by fastforce
    with JObj Some show ?thesis by simp
  qed
qed (use assms in auto)

lemma walkable_transform:
  assumes "walkable s" and "getProp s ''transform'' = Inr t"
  shows "t = JUndefined \<or> (\<exists>ts. t = JArr ts)"
proof (cases s)
  case (JObj kvs)
  with assms show ?thesis
    by (cases "map_of kvs ''transform''") (auto split: jsval.splits)
qed (use assms in auto)

lemma walkable_dataRefs:
  assumes "data = JUndefined \<or> walkable data"
  shows "\<exists>us. dataRefs data = Inr us"
proof (cases "data = JUndefined")
  case True
  then show ?thesis by (simp add: dataRefs_def)
next
  case False
  with assms have w: "walkable data" by simp
  show ?thesis
  proof (cases "\<exists>ds. data = JArr ds")
    case True
    then obtain ds where ds: "data = JArr ds" ..
    with w have el: "\<forall>d \<in> set ds. walkable d" by simp
    have "\<forall>d \<in> set ds. \<exists>b. hasUrl d = Inr b"
    proof
      fix d assume "d \<in> set ds"
      with el have "walkable d" ..
      from walkable_getProp [OF this, of "''url''"] show "\<exists>b. hasUrl d = Inr b"
        by (auto simp: hasUrl_def)
    qed
    from filterE_total [OF this]
    have f: "filterE hasUrl ds = Inr (filter (\<lambda>d. hasUrl d = Inr True) ds)" .
    have "\<forall>m \<in> set (map (\<lambda>d. getProp d ''url'') (filter (\<lambda>d. hasUrl d = Inr True) ds)).
        \<exists>x. m = Inr x"
    proof
      fix m assume "m \<in> set (map (\<lambda>d. getProp d ''url'') (filter (\<lambda>d. hasUrl d = Inr True) ds))"
      then obtain d where "d \<in> set ds" "m = getProp d ''url''" by auto
      with el walkable_getProp [of d "''url''"] show "\<exists>x. m = Inr x" by auto
    qed
    from sequenceE_returns [OF this] obtain us where
      "sequenceE (map (\<lambda>d. getProp d ''url'') (filter (\<lambda>d. hasUrl d = Inr True) ds)) = Inr us" ..
    with f ds show ?thesis by (simp add: dataRefs_def)
  next
    case notarr: False
    from walkable_getProp [OF w, of "''url''"] obtain u where "getProp data ''url'' = Inr u"
      by blast
    with notarr False show ?thesis by (cases data) (auto simp: dataRefs_def)
  qed
qed

lemma walkable_concat_js:
  assumes "\<forall>y \<in> set xs. y = JUndefined \<or> walkable y" and "v = JUndefined \<or> walkable v"
  shows "\<forall>x \<in> set (concat_js xs v). x = JUndefined \<or> walkable x"
  using assms by (cases v) (auto simp: concat_js_def)

lemma walkable_returns:
  "spec = JUndefined \<or> walkable spec \<Longrightarrow> \<exists>urls. getDataUrls spec = Inr urls"
proof (induction spec rule: measure_induct_rule [of weight])
  case (less spec)
  show ?case
  proof (cases "spec = JUndefined")
    case True
    then show ?thesis by (simp add: getDataUrls.simps)
  next
    case False
    with less.prems have w: "walkable spec" by simp
    from walkable_getProp [OF w, of "''data''"] obtain data where
      d: "getProp spec ''data'' = Inr data" "data = JUndefined \<or> walkable data" by blast
    from walkable_getProp [OF w, of "''transform''"] obtain transforms where
      t: "getProp spec ''transform'' = Inr transforms"
        "transforms = JUndefined \<or> walkable transforms" by blast
    from walkable_getProp [OF w, of "''layer''"] obtain l1 where
      l1: "getProp spec ''layer'' = Inr l1" "l1 = JUndefined \<or> walkable l1" by blast
    from walkable_getProp [OF w, of "''concat''"] obtain l2 where
      l2: "getProp spec ''concat'' = Inr l2" "l2 = JUndefined \<or> walkable l2" by blast
    from walkable_getProp [OF w, of "''hconcat''"] obtain l3 where
      l3: "getProp spec ''hconcat'' = Inr l3" "l3 = JUndefined \<or> walkable l3" by blast
    from walkable_getProp [OF w, of "''vconcat''"] obtain l4 where
      l4: "getProp spec ''vconcat'' = Inr l4" "l4 = JUndefined \<or> walkable l4" by blast
    note l = l1(1) l2(1) l3(1) l4(1) and lw = l1(2) l2(2) l3(2) l4(2)
    let ?layers = "concat_js (concat_js (concat_js (concat_js [] l1) l2) l3) l4"
    from walkable_dataRefs [OF d(2)] obtain dU where dU: "dataRefs data = Inr dU" ..
    have "\<forall>y \<in> set []. y = JUndefined \<or> walkable y" by simp
    note walkable_concat_js [OF this lw(1)]
    note walkable_concat_js [OF this lw(2)]
    note walkable_concat_js [OF this lw(3)]
    note lay = walkable_concat_js [OF this lw(4)]
    have "\<forall>m \<in> set (map getDataUrls ?layers). \<exists>r. m = Inr r"
    proof
      fix m assume "m \<in> set (map getDataUrls ?layers)"
      then obtain x where x: "x \<in> set ?layers" "m = getDataUrls x" by auto
      from weight_layers [OF l x(1)] lay x(1) less.IH [of x] x(2)
      show "\<exists>r. m = Inr r" by blast
    qed
    from sequenceE_returns [OF this] obtain lU where
      lU: "sequenceE (map getDataUrls ?layers) = Inr lU" ..
    show ?thesis
    proof (cases "transforms = JUndefined")
      case True
      with d t l dU lU False show ?thesis
        by (subst getDataUrls.simps) simp
    next
      case tdef: False
      with walkable_transform [OF w t(1)] obtain ts where ts: "transforms = JArr ts" by blast
      with t(2) have tw: "\<forall>x \<in> set ts. walkable x" by simp
      have "\<forall>m \<in> set (map (\<lambda>x. bindE (getProp x ''from'') getDataUrls) ts). \<exists>r. m = Inr r"
      proof
        fix m assume "m \<in> set (map (\<lambda>x. bindE (getProp x ''from'') getDataUrls) ts)"
        then obtain x where x: "x \<in> set ts" "m = bindE (getProp x ''from'') getDataUrls"
          by auto
        from tw x(1) have "walkable x" ..
        from walkable_getProp [OF this, of "''from''"] obtain f where
          f: "getProp x ''from'' = Inr f" "f = JUndefined \<or> walkable f" by blast
        from ts have "elements transforms = Inr ts" by simp
        from weight_from [OF t(1) this x(1) f(1)] less.IH [of f] f(2)
        obtain r where "getDataUrls f = Inr r" by blast
        with x(2) f(1) show "\<exists>r. m = Inr r" by simp
      qed
      from sequenceE_returns [OF this] obtain fU where
        "sequenceE (map (\<lambda>x. bindE (getProp x ''from'') getDataUrls) ts) = Inr fU" ..
      with d t l dU lU False ts show ?thesis
        by (subst getDataUrls.simps) simp
    qed
  qed
qed

text \<open>The loop over the local urls, and what a normal return of \<^verbatim>\<open>getData\<close> is made of.\<close>

lemma dataFilePath_files [simp]: "dataFilePath (h\<lparr>files := fs\<rparr>) p url = dataFilePath h p url"
  by (simp add: dataFilePath_def)

lemma loadFiles_entries:
  "loadFiles h p vs m0 = Inr m \<Longrightarrow>
     m url = (case files h (dataFilePath h p url) of
                Some (File txt) \<Rightarrow>
                  if JStr url \<in> set vs \<and> txt \<noteq> [] \<and> url \<noteq> ''__proto__'' then Some txt
                  else m0 url
              | _ \<Rightarrow> m0 url)"
proof (induction h p vs m0 rule: loadFiles.induct)
  case (1 h p dataFiles)
  then show ?case by (simp split: option.splits fsnode.splits)
next
  case (2 h p u urls dataFiles)
  show ?case
  proof (cases "files h (dataFilePath h p u)")
    case None
    with 2 show ?thesis
      by (auto simp: getFileData_def  split: option.splits fsnode.splits)
  next
    case (Some node)
    show ?thesis
    proof (cases node)
      case (File t)
      with Some 2 show ?thesis
        by (auto simp: getFileData_def setProperty_def split: option.splits fsnode.splits)
    next
      case Unreadable
      with Some 2 show ?thesis by (simp add: getFileData_def)
    qed
  qed
qed simp_all

lemma loadFiles_returns:
  "(\<forall>v \<in> set vs. \<exists>s. v = JStr s \<and> files h (dataFilePath h p s) \<noteq> Some Unreadable) \<Longrightarrow>
     \<exists>m. loadFiles h p vs m0 = Inr m"
proof (induction h p vs m0 rule: loadFiles.induct)
  case (2 h p u urls dataFiles)
  from "2.prems" have ok: "files h (dataFilePath h p u) \<noteq> Some Unreadable"
    and rest: "\<forall>v \<in> set urls. \<exists>s. v = JStr s \<and> files h (dataFilePath h p s) \<noteq> Some Unreadable"
    by simp_all
  have "\<exists>d. getFileData h p u = Inr d"
  proof (cases "files h (dataFilePath h p u)")
    case None
    then show ?thesis by (simp add: getFileData_def)
  next
    case (Some node)
    with ok show ?thesis by (cases node) (simp_all add: getFileData_def)
  qed
  then obtain d where d: "getFileData h p u = Inr d" ..
  from "2.IH" [OF d rest] d show ?case by simp
qed simp_all

lemma loadFiles_frame:
  "(\<forall>s. JStr s \<in> set vs \<longrightarrow> fs (dataFilePath h p s) = files h (dataFilePath h p s)) \<Longrightarrow>
     loadFiles (h\<lparr>files := fs\<rparr>) p vs m0 = loadFiles h p vs m0"
proof (induction h p vs m0 rule: loadFiles.induct)
  case (2 h p u urls dataFiles)
  from "2.prems" have same: "getFileData (h\<lparr>files := fs\<rparr>) p u = getFileData h p u"
    and rest: "\<forall>s. JStr s \<in> set urls \<longrightarrow> fs (dataFilePath h p s) = files h (dataFilePath h p s)"
    by (simp_all add: getFileData_def)
  show ?case
  proof (cases "getFileData h p u")
    case (Inl e)
    with same show ?thesis by simp
  next
    case (Inr d)
    from "2.IH" [OF Inr rest] Inr same show ?thesis by simp
  qed
qed simp_all

lemma isLocalUrl_True: "isLocalUrl v = Inr True \<longleftrightarrow> (\<exists>s. v = JStr s \<and> \<not> startsWith s ''http'')"
  by (cases v) auto

lemma getData_Inr:
  assumes "getData h p spec = Inr m"
  obtains urls nested nestedUrls where
    "getDataUrls spec = Inr urls" "getProp spec ''spec'' = Inr nested"
    "getDataUrls nested = Inr nestedUrls"
    "loadFiles h p (filter (\<lambda>v. isLocalUrl v = Inr True) (urls @ nestedUrls)) Map.empty = Inr m"
  using assms by (auto simp: getData_def split: sum.splits dest!: filterE_Inr)

lemma getData_entries:
  assumes "getData h p spec = Inr m"
  obtains urls nested nestedUrls where
    "getDataUrls spec = Inr urls" "getProp spec ''spec'' = Inr nested"
    "getDataUrls nested = Inr nestedUrls"
    "\<And>url. m url = (case files h (dataFilePath h p url) of
                Some (File txt) \<Rightarrow>
                  if JStr url \<in> set (urls @ nestedUrls) \<and> \<not> startsWith url ''http'' \<and>
                     txt \<noteq> [] \<and> url \<noteq> ''__proto__'' then Some txt
                  else None
              | _ \<Rightarrow> None)"
proof (rule getData_Inr [OF assms])
  fix urls nested nestedUrls
  assume a: "getDataUrls spec = Inr urls" "getProp spec ''spec'' = Inr nested"
    "getDataUrls nested = Inr nestedUrls"
    and l: "loadFiles h p (filter (\<lambda>v. isLocalUrl v = Inr True) (urls @ nestedUrls)) Map.empty = Inr m"
  have "m url = (case files h (dataFilePath h p url) of
                Some (File txt) \<Rightarrow>
                  if JStr url \<in> set (urls @ nestedUrls) \<and> \<not> startsWith url ''http'' \<and>
                     txt \<noteq> [] \<and> url \<noteq> ''__proto__'' then Some txt
                  else None
              | _ \<Rightarrow> None)" for url
    using loadFiles_entries [OF l, of url]
    by (simp add: isLocalUrl_True split: option.splits fsnode.splits)
  with a show thesis by (rule that)
qed

text \<open>The example host and the example specs, evaluated.\<close>

lemma demo_path: "dataFilePath demoHost demoPreview url = ''/work/'' @ url"
  by (simp add: dataFilePath_def demoHost_def)

lemma demo_files:
  "files demoHost = map_of [(''/work/a.csv'', File ''x,y''), (''/work/empty.csv'', File []),
                      (''/work/__proto__'', File ''p'')]"
  by (simp add: demoHost_def)

lemma getData_nestedDemo: "getData demoHost demoPreview nestedDemo = Inr [''a.csv'' \<mapsto> ''x,y'']"
  by (simp add: getData_def nestedDemo_def getDataUrls.simps dataRefs_def concat_js_def
      startsWith_def getFileData_def demo_path demo_files setProperty_def)

lemma getData_deepSpec: "getData demoHost demoPreview deepSpec = Inr Map.empty"
  by (simp add: getData_def deepSpec_def getDataUrls.simps dataRefs_def concat_js_def)

lemma getDataUrls_mixedSpec:
  "getDataUrls mixedSpec = Inr [JStr ''a.csv'', JStr ''missing.csv'', JStr ''http://example.com/r.csv'',
     JStr ''empty.csv'', JStr ''__proto__'']"
  by (simp add: mixedSpec_def getDataUrls.simps dataRefs_def concat_js_def hasUrl_def)

lemma getData_mixedSpec: "getData demoHost demoPreview mixedSpec = Inr [''a.csv'' \<mapsto> ''x,y'']"
  by (simp add: getData_def getDataUrls_mixedSpec)
   (simp add: mixedSpec_def getDataUrls.simps
      startsWith_def getFileData_def demo_path demo_files setProperty_def)

section \<open>The walk collects the data urls\<close>

text \<open>
  Claim C1, as amended. On \<^verbatim>\<open>undefined\<close>, \<^verbatim>\<open>getDataUrls\<close> returns the empty list. On
  every walkable spec (no \<^verbatim>\<open>null\<close> in it, every \<^verbatim>\<open>transform\<close> member an array) it
  returns a list. Whenever it returns a list \<open>urls\<close> on a spec, that list holds: the
  \<^verbatim>\<open>url\<close> of \<^verbatim>\<open>spec['data']\<close> when that is not an array and its \<^verbatim>\<open>url\<close> is defined;
  the \<^verbatim>\<open>url\<close> of every element of the array \<^verbatim>\<open>spec['data']\<close> whose \<^verbatim>\<open>url\<close> is
  defined; everything the walk returns on each element of the arrays \<^verbatim>\<open>spec['layer']\<close>,
  \<^verbatim>\<open>spec['concat']\<close>, \<^verbatim>\<open>spec['hconcat']\<close> and \<^verbatim>\<open>spec['vconcat']\<close>; and everything
  it returns on \<^verbatim>\<open>t['from']\<close> for each element \<open>t\<close> of \<^verbatim>\<open>spec['transform']\<close>.
\<close>

theorem getDataUrls_collects:
  "getDataUrls JUndefined = Inr [] \<and>
   (walkable spec \<longrightarrow> (\<exists>urls. getDataUrls spec = Inr urls)) \<and>
   (getDataUrls spec = Inr urls \<longrightarrow>
     (\<forall>d u. getProp spec ''data'' = Inr d \<and> (\<forall>ds. d \<noteq> JArr ds) \<and>
            getProp d ''url'' = Inr u \<and> u \<noteq> JUndefined \<longrightarrow> u \<in> set urls) \<and>
     (\<forall>ds d u. getProp spec ''data'' = Inr (JArr ds) \<and> d \<in> set ds \<and>
            getProp d ''url'' = Inr u \<and> u \<noteq> JUndefined \<longrightarrow> u \<in> set urls) \<and>
     (\<forall>k xs x. k \<in> {''layer'', ''concat'', ''hconcat'', ''vconcat''} \<and>
            getProp spec k = Inr (JArr xs) \<and> x \<in> set xs \<longrightarrow>
            (\<exists>r. getDataUrls x = Inr r \<and> set r \<subseteq> set urls)) \<and>
     (\<forall>ts t. getProp spec ''transform'' = Inr (JArr ts) \<and> t \<in> set ts \<longrightarrow>
            (\<exists>f r. getProp t ''from'' = Inr f \<and> getDataUrls f = Inr r \<and> set r \<subseteq> set urls)))"
proof (intro conjI impI)
  show "getDataUrls JUndefined = Inr []" by (simp add: getDataUrls.simps)
next
  assume "walkable spec"
  then show "\<exists>urls. getDataUrls spec = Inr urls" using walkable_returns by blast
next
  assume ret: "getDataUrls spec = Inr urls"
  show "\<forall>d u. getProp spec ''data'' = Inr d \<and> (\<forall>ds. d \<noteq> JArr ds) \<and>
            getProp d ''url'' = Inr u \<and> u \<noteq> JUndefined \<longrightarrow> u \<in> set urls"
  proof (intro allI impI, elim conjE)
    fix d u
    assume d: "getProp spec ''data'' = Inr d" "\<forall>ds. d \<noteq> JArr ds"
      "getProp d ''url'' = Inr u" "u \<noteq> JUndefined"
    then have ne: "spec \<noteq> JUndefined" by auto
    obtain data dU lU fU where
      "getProp spec ''data'' = Inr data" "dataRefs data = Inr dU"
      "urls = dU @ concat lU @ concat fU" by (rule getDataUrls_Inr [OF ret ne]) (rule that)
    with d dataRefs_object [of d dU u] show "u \<in> set urls" by simp
  qed
next
  assume ret: "getDataUrls spec = Inr urls"
  show "\<forall>ds d u. getProp spec ''data'' = Inr (JArr ds) \<and> d \<in> set ds \<and>
            getProp d ''url'' = Inr u \<and> u \<noteq> JUndefined \<longrightarrow> u \<in> set urls"
  proof (intro allI impI, elim conjE)
    fix ds d u
    assume d: "getProp spec ''data'' = Inr (JArr ds)" "d \<in> set ds"
      "getProp d ''url'' = Inr u" "u \<noteq> JUndefined"
    then have ne: "spec \<noteq> JUndefined" by auto
    obtain data dU lU fU where
      "getProp spec ''data'' = Inr data" "dataRefs data = Inr dU"
      "urls = dU @ concat lU @ concat fU" by (rule getDataUrls_Inr [OF ret ne]) (rule that)
    with d dataRefs_array_member [of ds dU d u] show "u \<in> set urls" by simp
  qed
next
  assume ret: "getDataUrls spec = Inr urls"
  show "\<forall>k xs x. k \<in> {''layer'', ''concat'', ''hconcat'', ''vconcat''} \<and>
            getProp spec k = Inr (JArr xs) \<and> x \<in> set xs \<longrightarrow>
            (\<exists>r. getDataUrls x = Inr r \<and> set r \<subseteq> set urls)"
  proof (intro allI impI, elim conjE)
    fix k xs x
    assume k: "k \<in> {''layer'', ''concat'', ''hconcat'', ''vconcat''}"
      and a: "getProp spec k = Inr (JArr xs)" and x: "x \<in> set xs"
    from a have ne: "spec \<noteq> JUndefined" by auto
    obtain l1 l2 l3 l4 dU lU fU where
      l: "getProp spec ''layer'' = Inr l1" "getProp spec ''concat'' = Inr l2"
      "getProp spec ''hconcat'' = Inr l3" "getProp spec ''vconcat'' = Inr l4"
      and m: "map getDataUrls (concat_js (concat_js (concat_js (concat_js [] l1) l2) l3) l4)
                = map Inr lU"
      and u: "urls = dU @ concat lU @ concat fU" by (rule getDataUrls_Inr [OF ret ne]) (rule that)
    from layers_member [OF k a l] x
    have "x \<in> set (concat_js (concat_js (concat_js (concat_js [] l1) l2) l3) l4)" by blast
    from map_Inr_member [OF m this] obtain r where "getDataUrls x = Inr r" "r \<in> set lU"
      by blast
    with u show "\<exists>r. getDataUrls x = Inr r \<and> set r \<subseteq> set urls" by auto
  qed
next
  assume ret: "getDataUrls spec = Inr urls"
  show "\<forall>ts t. getProp spec ''transform'' = Inr (JArr ts) \<and> t \<in> set ts \<longrightarrow>
            (\<exists>f r. getProp t ''from'' = Inr f \<and> getDataUrls f = Inr r \<and> set r \<subseteq> set urls)"
  proof (intro allI impI, elim conjE)
    fix ts t
    assume a: "getProp spec ''transform'' = Inr (JArr ts)" and t: "t \<in> set ts"
    from a have ne: "spec \<noteq> JUndefined" by auto
    obtain transforms dU lU fU where
      tr: "getProp spec ''transform'' = Inr transforms"
      and m: "transforms = JUndefined \<and> fU = [] \<or>
        (\<exists>ts. transforms = JArr ts \<and>
          map (\<lambda>t. bindE (getProp t ''from'') getDataUrls) ts = map Inr fU)"
      and u: "urls = dU @ concat lU @ concat fU" by (rule getDataUrls_Inr [OF ret ne]) (rule that)
    from a tr m have "map (\<lambda>t. bindE (getProp t ''from'') getDataUrls) ts = map Inr fU"
      by auto
    from map_Inr_member [OF this t] obtain r where
      "bindE (getProp t ''from'') getDataUrls = Inr r" "r \<in> set fU" by blast
    with u show "\<exists>f r. getProp t ''from'' = Inr f \<and> getDataUrls f = Inr r \<and> set r \<subseteq> set urls"
      by (auto split: sum.splits)
  qed
qed

theorem getDataUrls_collects_witness:
  "walkable demoSpec \<and> (\<exists>urls. getDataUrls demoSpec = Inr urls) \<and>
   getDataUrls demoSpec = Inr [JStr ''a.csv'', JStr ''b.csv'', JStr ''c.csv''] \<and>
   getProp demoSpec ''data'' = Inr (JObj [(''url'', JStr ''a.csv'')]) \<and>
   getProp (JObj [(''url'', JStr ''a.csv'')]) ''url'' = Inr (JStr ''a.csv'') \<and>
   JStr ''a.csv'' \<in> set [JStr ''a.csv'', JStr ''b.csv'', JStr ''c.csv''] \<and>
   getProp demoSpec ''layer'' = Inr (JArr [demoLayer]) \<and>
   (\<exists>r. getDataUrls demoLayer = Inr r \<and> set r \<subseteq> set [JStr ''a.csv'', JStr ''b.csv'', JStr ''c.csv'']) \<and>
   getProp demoSpec ''transform'' = Inr (JArr [demoLookup, JObj [(''filter'', JStr ''f'')]]) \<and>
   (\<exists>f r. getProp demoLookup ''from'' = Inr f \<and> getDataUrls f = Inr r \<and>
          set r \<subseteq> set [JStr ''a.csv'', JStr ''b.csv'', JStr ''c.csv'']) \<and>
   getDataUrls demoLayer = Inr [JStr ''b.csv''] \<and>
   getProp demoLayer ''data'' = Inr (JArr [JObj [(''url'', JStr ''b.csv'')], JObj [(''name'', JStr ''x'')]]) \<and>
   JStr ''b.csv'' \<in> set [JStr ''b.csv'']"
proof -
  let ?urls = "[JStr ''a.csv'', JStr ''b.csv'', JStr ''c.csv'']"
  have ret: "getDataUrls demoSpec = Inr ?urls"
    by (simp add: demoSpec_def demoLayer_def demoLookup_def getDataUrls.simps dataRefs_def
        hasUrl_def concat_js_def)
  have ret': "getDataUrls demoLayer = Inr [JStr ''b.csv'']"
    by (simp add: demoLayer_def getDataUrls.simps dataRefs_def hasUrl_def concat_js_def)
  have d: "getProp demoSpec ''data'' = Inr (JObj [(''url'', JStr ''a.csv'')])"
    and l: "getProp demoSpec ''layer'' = Inr (JArr [demoLayer])"
    and t: "getProp demoSpec ''transform'' = Inr (JArr [demoLookup, JObj [(''filter'', JStr ''f'')]])"
    by (simp_all add: demoSpec_def)
  have u: "getProp (JObj [(''url'', JStr ''a.csv'')]) ''url'' = Inr (JStr ''a.csv'')" by simp
  have d': "getProp demoLayer ''data'' =
      Inr (JArr [JObj [(''url'', JStr ''b.csv'')], JObj [(''name'', JStr ''x'')]])"
    by (simp add: demoLayer_def)
  have w: "walkable demoSpec" by (simp add: demoSpec_def demoLayer_def demoLookup_def)
  note ex = getDataUrls_collects [of demoSpec, THEN conjunct2, THEN conjunct1, THEN mp, OF w]
  note top = getDataUrls_collects [of demoSpec ?urls, THEN conjunct2, THEN conjunct2, THEN mp, OF ret]
  note sub = getDataUrls_collects [of demoLayer "[JStr ''b.csv'']", THEN conjunct2, THEN conjunct2,
    THEN mp, OF ret']
  have 1: "JStr ''a.csv'' \<in> set ?urls"
    by (rule top [THEN conjunct1, rule_format, of "JObj [(''url'', JStr ''a.csv'')]"])
      (simp add: d)
  have 2: "\<exists>r. getDataUrls demoLayer = Inr r \<and> set r \<subseteq> set ?urls"
    by (rule top [THEN conjunct2, THEN conjunct2, THEN conjunct1, rule_format,
          of "''layer''" "[demoLayer]"]) (simp add: l)
  have 3: "\<exists>f r. getProp demoLookup ''from'' = Inr f \<and> getDataUrls f = Inr r \<and> set r \<subseteq> set ?urls"
    by (rule top [THEN conjunct2, THEN conjunct2, THEN conjunct2, rule_format,
          of "[demoLookup, JObj [(''filter'', JStr ''f'')]]"]) (simp add: t)
  have 4: "JStr ''b.csv'' \<in> set [JStr ''b.csv'']"
    by (rule sub [THEN conjunct2, THEN conjunct1, rule_format,
          of "[JObj [(''url'', JStr ''b.csv'')], JObj [(''name'', JStr ''x'')]]"
             "JObj [(''url'', JStr ''b.csv'')]"]) (simp add: d')
  from w ex ret ret' d l t u d' 1 2 3 4 show ?thesis by (intro conjI)
qed

text \<open>
  Claim C1 as stated fails. The data of this spec is an object with a defined \<^verbatim>\<open>url\<close>, and
  the walk does not collect it: its layer sets \<^verbatim>\<open>data\<close> to \<^verbatim>\<open>null\<close>, the walk reads
  the \<^verbatim>\<open>url\<close> of that \<^verbatim>\<open>null\<close>, and throws.
\<close>

theorem getDataUrls_throws_on_null:
  "getProp nullDataSpec ''data'' = Inr (JObj [(''url'', JStr ''a.csv'')]) \<and>
   getProp (JObj [(''url'', JStr ''a.csv'')]) ''url'' = Inr (JStr ''a.csv'') \<and>
   getDataUrls nullDataSpec = Inl TypeError"
  by (simp add: nullDataSpec_def getDataUrls.simps dataRefs_def concat_js_def)

section \<open>The walk terminates\<close>

text \<open>
  Claim C6. \<^verbatim>\<open>getDataUrls\<close> terminates on every value. \<open>getDataUrls_rel x spec\<close> is the
  call relation of the definition above: the body of \<^verbatim>\<open>getDataUrls\<close> on \<open>spec\<close> calls
  \<^verbatim>\<open>getDataUrls\<close> on \<open>x\<close> (an element of \<^verbatim>\<open>layers\<close>, or the \<^verbatim>\<open>from\<close> of an element of
  \<^verbatim>\<open>transform\<close>). \<open>getDataUrls_dom spec\<close> says that every chain of such calls from
  \<open>spec\<close> ends. Every call is on a value of strictly smaller weight, which is a proper
  subtree of \<open>spec\<close>, or \<^verbatim>\<open>undefined\<close> (an absent member, on which the walk returns at
  once), or the \<^verbatim>\<open>concat\<close> method that an array or a string inherits (on which the walk
  finds only absent members).
\<close>

theorem getDataUrls_terminates:
  "getDataUrls_dom spec \<and>
   (\<forall>x. getDataUrls_rel x spec \<longrightarrow>
      weight x < weight spec \<and> (x = JUndefined \<or> x = JFun \<or> x \<in> set (parts spec)))"
proof
  have smaller: "weight x < weight s" if "getDataUrls_rel x s" for x s
    using that by cases (auto intro: weight_layers weight_from)
  show "getDataUrls_dom spec"
  proof (induction spec rule: measure_induct_rule [of weight])
    case (less s)
    show ?case by (rule accp.accI) (rule less, rule smaller)
  qed
  show "\<forall>x. getDataUrls_rel x spec \<longrightarrow>
      weight x < weight spec \<and> (x = JUndefined \<or> x = JFun \<or> x \<in> set (parts spec))"
  proof (intro allI impI conjI)
    fix x
    assume r: "getDataUrls_rel x spec"
    then show "weight x < weight spec" by (rule smaller)
    from r show "x = JUndefined \<or> x = JFun \<or> x \<in> set (parts spec)"
      by cases (auto dest: parts_layers parts_from)
  qed
qed

theorem getDataUrls_terminates_witness:
  "getDataUrls_rel demoLayer demoSpec \<and> weight demoLayer < weight demoSpec \<and>
   demoLayer \<in> set (parts demoSpec) \<and> getDataUrls_dom demoSpec"
proof -
  have r: "getDataUrls_rel demoLayer demoSpec"
  proof (rule getDataUrls_rel.intros(1))
    show "demoSpec \<noteq> JUndefined" by (simp add: demoSpec_def)
    show "getProp demoSpec ''data'' = Inr (JObj [(''url'', JStr ''a.csv'')])"
      and "getProp demoSpec ''transform'' = Inr (JArr [demoLookup, JObj [(''filter'', JStr ''f'')]])"
      and "getProp demoSpec ''layer'' = Inr (JArr [demoLayer])"
      and "getProp demoSpec ''concat'' = Inr JUndefined"
      and "getProp demoSpec ''hconcat'' = Inr JUndefined"
      and "getProp demoSpec ''vconcat'' = Inr JUndefined"
      by (simp_all add: demoSpec_def)
    show "dataRefs (JObj [(''url'', JStr ''a.csv'')]) = Inr [JStr ''a.csv'']"
      by (simp add: dataRefs_def)
    show "demoLayer \<in> set (concat_js (concat_js (concat_js (concat_js [] (JArr [demoLayer]))
        JUndefined) JUndefined) JUndefined)"
      by (simp add: concat_js_def)
  qed
  have n: "demoLayer \<noteq> JUndefined" "demoLayer \<noteq> JFun" by (simp_all add: demoLayer_def)
  from getDataUrls_terminates [of demoSpec] r n show ?thesis by blast
qed

section \<open>The JSON5 data provider loads what it parsed\<close>

text \<open>
  Claim C3. When the file is read and its content parses, \<^verbatim>\<open>Json5DataProvider.getData\<close>
  reads the file once and calls \<^verbatim>\<open>loadData\<close> once, with \<^verbatim>\<open>convertJsonData\<close> of the parsed
  value; it does nothing else.
\<close>

theorem json5_getData_loads_parsed:
  assumes "readDataFile deps dataUrl = Inr txt" and "json5_parse deps txt = Inr data"
  shows "Json5_getData deps dataUrl parseOptions =
           [ReadDataFile dataUrl, LoadData (convertJsonData deps data)]"
  using assms by (simp add: Json5_getData_def)

theorem json5_getData_loads_parsed_witness:
  "readDataFile demoDeps ''ok.json5'' = Inr ''[1]'' \<and>
   json5_parse demoDeps ''[1]'' = Inr (JArr [JNum 1]) \<and>
   Json5_getData demoDeps ''ok.json5'' JUndefined =
     [ReadDataFile ''ok.json5'', LoadData (JArr [JNum 1])]"
proof -
  have r: "readDataFile demoDeps ''ok.json5'' = Inr ''[1]''"
    and q: "json5_parse demoDeps ''[1]'' = Inr (JArr [JNum 1])"
    by (simp_all add: demoDeps_def)
  from json5_getData_loads_parsed [OF r q, of JUndefined] r q show ?thesis
    by (simp add: demoDeps_def)
qed

text \<open>
  Claim C4. When reading the file throws, or parsing its content throws,
  \<^verbatim>\<open>Json5DataProvider.getData\<close> shows one error message for that error and then calls
  \<^verbatim>\<open>loadData\<close> once, with \<^verbatim>\<open>convertJsonData\<close> of the empty array; the file is read once
  and nothing else happens.
\<close>

theorem json5_getData_reports_failure:
  assumes "readDataFile deps dataUrl = Inl err \<or>
           (\<exists>txt. readDataFile deps dataUrl = Inr txt \<and> json5_parse deps txt = Inl err)"
  shows "Json5_getData deps dataUrl parseOptions =
           [ReadDataFile dataUrl, ShowErrorMessage dataUrl err,
            LoadData (convertJsonData deps (JArr []))]"
  using assms by (auto simp: Json5_getData_def)

theorem json5_getData_reports_failure_witness:
  "readDataFile demoDeps ''gone.json5'' = Inl FsError \<and>
   Json5_getData demoDeps ''gone.json5'' JUndefined =
     [ReadDataFile ''gone.json5'', ShowErrorMessage ''gone.json5'' FsError, LoadData (JArr [])] \<and>
   readDataFile demoDeps ''bad.json5'' = Inr ''[1'' \<and>
   json5_parse demoDeps ''[1'' = Inl SyntaxError \<and>
   Json5_getData demoDeps ''bad.json5'' JUndefined =
     [ReadDataFile ''bad.json5'', ShowErrorMessage ''bad.json5'' SyntaxError, LoadData (JArr [])]"
proof -
  have a: "readDataFile demoDeps ''gone.json5'' = Inl FsError"
    and b: "readDataFile demoDeps ''bad.json5'' = Inr ''[1''"
    and c: "json5_parse demoDeps ''[1'' = Inl SyntaxError"
    by (simp_all add: demoDeps_def)
  from b c have d: "readDataFile demoDeps ''bad.json5'' = Inl SyntaxError \<or>
      (\<exists>txt. readDataFile demoDeps ''bad.json5'' = Inr txt \<and>
         json5_parse demoDeps txt = Inl SyntaxError)"
    by blast
  from json5_getData_reports_failure [OF disjI1 [OF a], of JUndefined]
    json5_getData_reports_failure [OF d, of JUndefined] a b c
  show ?thesis by (simp add: demoDeps_def)
qed

text \<open>
  Claim C9. Whatever the data url, \<^verbatim>\<open>getDataTableNames\<close> returns the empty array and
  \<^verbatim>\<open>getDataSchema\<close> returns \<^verbatim>\<open>null\<close>.
\<close>

theorem provider_has_no_tables_and_no_schema:
  "getDataTableNames dataUrl = [] \<and> getDataSchema dataUrl = JNull"
  by (simp add: getDataTableNames_def getDataSchema_def)

section \<open>The preview panel\<close>

text \<open>
  Claim C5. When the document opens and its text is not valid JSON, \<^verbatim>\<open>refresh\<close> reveals
  the panel and posts one message, which carries the error; no refresh message is posted.
\<close>

theorem refresh_reports_invalid_json:
  assumes "openTextDocument h (uri p) = Some txt" and "JSON_parse h txt = Inl err"
  shows "refresh h p = [Reveal (viewColumn (panel p)) True, PostMessage (ErrorMessage err)] \<and>
         (\<forall>name u spec data. PostMessage (RefreshMessage name u spec data) \<notin> set (refresh h p))"
  using assms by (simp add: refresh_def)

theorem refresh_reports_invalid_json_witness:
  "openTextDocument demoHost (uri demoPreview) = Some ''{'' \<and>
   JSON_parse demoHost ''{'' = Inl SyntaxError \<and>
   refresh demoHost demoPreview = [Reveal 2 True, PostMessage (ErrorMessage SyntaxError)]"
proof -
  have a: "openTextDocument demoHost (uri demoPreview) = Some ''{''"
    and b: "JSON_parse demoHost ''{'' = Inl SyntaxError"
    by (simp_all add: demoHost_def)
  have c: "viewColumn (panel demoPreview) = 2"
    by (simp add: demoPreview_def DataPreview_def demoPanel_def Let_def)
  from refresh_reports_invalid_json [OF a b] a b c show ?thesis by simp
qed

text \<open>
  Claim C7. The roots that \<^verbatim>\<open>getLocalResourceRoots\<close> returns always include the
  \<^verbatim>\<open>scripts\<close> directory of the extension. They are the workspace folder of the uri and
  the scripts directory when the uri has a workspace folder; the directory of the
  previewed file and the scripts directory when it has none and its scheme is empty or
  \<^verbatim>\<open>file\<close>. The list is never empty.
\<close>

theorem getLocalResourceRoots_includes:
  "Uri_file (path_join h extPath ''scripts'') \<in> set (getLocalResourceRoots h extPath u) \<and>
   (\<forall>folder. getWorkspaceFolder h u = Some folder \<longrightarrow>
      getLocalResourceRoots h extPath u = [folder, Uri_file (path_join h extPath ''scripts'')]) \<and>
   (getWorkspaceFolder h u = None \<and> (scheme u = [] \<or> scheme u = ''file'') \<longrightarrow>
      getLocalResourceRoots h extPath u =
        [Uri_file (path_dirname h (fsPath u)), Uri_file (path_join h extPath ''scripts'')]) \<and>
   getLocalResourceRoots h extPath u \<noteq> []"
  by (simp add: getLocalResourceRoots_def split: option.splits)

theorem getLocalResourceRoots_includes_witness:
  "getWorkspaceFolder (demoHost\<lparr>getWorkspaceFolder := (\<lambda>u. Some (Uri_file ''/work''))\<rparr>) demoUri
     = Some (Uri_file ''/work'') \<and>
   getLocalResourceRoots (demoHost\<lparr>getWorkspaceFolder := (\<lambda>u. Some (Uri_file ''/work''))\<rparr>)
     ''/ext'' demoUri = [Uri_file ''/work'', Uri_file ''/ext/scripts''] \<and>
   getWorkspaceFolder demoHost demoUri = None \<and> scheme demoUri = ''file'' \<and>
   getLocalResourceRoots demoHost ''/ext'' demoUri = [Uri_file ''/work'', Uri_file ''/ext/scripts'']"
  using getLocalResourceRoots_includes
      [of "demoHost\<lparr>getWorkspaceFolder := (\<lambda>u. Some (Uri_file ''/work''))\<rparr>" "''/ext''" demoUri]
    getLocalResourceRoots_includes [of demoHost "''/ext''" demoUri]
  by (simp add: demoHost_def demoUri_def)

text \<open>
  Claim C8. When the saved state has a \<^verbatim>\<open>uri\<close> that the editor parses,
  \<^verbatim>\<open>deserializeWebviewPanel\<close> makes one call of the preview manager's \<^verbatim>\<open>add\<close>, with a
  new preview constructed from the serializer's view type, extension path and template, the
  parsed uri, the view column of the restored panel, and that panel. The preview's uri is
  the parsed uri, and its panel is the restored panel (with the preview's html written to
  its webview), not a new one.
\<close>

theorem deserializeWebviewPanel_restores:
  assumes "getProp state ''uri'' = Inr stateUri" and "callToString stateUri = Inr ()"
    and "Uri_parse h stateUri = Inr parsed"
  shows "\<exists>restored.
      deserializeWebviewPanel h ser webviewPanel state = Inr [ManagerAdd restored] \<and>
      restored = DataPreview h (sViewType ser) (sExtensionPath ser) parsed
                   (viewColumn webviewPanel) (sTemplate ser) (Some webviewPanel) \<and>
      uri restored = parsed \<and>
      panel restored = webviewPanel\<lparr>webviewHtml := html restored\<rparr> \<and>
      viewColumn (panel restored) = viewColumn webviewPanel"
  using assms by (simp add: deserializeWebviewPanel_def DataPreview_def Let_def)

theorem deserializeWebviewPanel_restores_witness:
  "getProp demoState ''uri'' = Inr (JStr ''/work/chart.vl.json'') \<and>
   callToString (JStr ''/work/chart.vl.json'') = Inr () \<and>
   Uri_parse demoHost (JStr ''/work/chart.vl.json'') = Inr demoUri \<and>
   deserializeWebviewPanel demoHost demoSerializer demoPanel demoState
     = Inr [ManagerAdd demoPreview] \<and>
   uri demoPreview = demoUri \<and> panelId (panel demoPreview) = 7"
proof -
  have a: "getProp demoState ''uri'' = Inr (JStr ''/work/chart.vl.json'')"
    and b: "callToString (JStr ''/work/chart.vl.json'') = Inr ()"
    and c: "Uri_parse demoHost (JStr ''/work/chart.vl.json'') = Inr demoUri"
    by (simp_all add: demoState_def demoHost_def demoUri_def)
  have d: "DataPreview demoHost (sViewType demoSerializer) (sExtensionPath demoSerializer) demoUri
      (viewColumn demoPanel) (sTemplate demoSerializer) (Some demoPanel) = demoPreview"
    by (simp add: demoPreview_def demoSerializer_def demoPanel_def)
  have e: "panelId (panel demoPreview) = 7"
    by (simp add: demoPreview_def DataPreview_def demoPanel_def Let_def)
  from deserializeWebviewPanel_restores [OF a b c, of demoSerializer demoPanel] a b c d e
  show ?thesis by auto
qed

section \<open>The data handed to the preview\<close>

text \<open>
  Claim C2, as amended. Whenever \<^verbatim>\<open>getData\<close> returns a map, the map holds, for every
  string that \<^verbatim>\<open>getDataUrls\<close> collects from the spec itself (depth 0) or from its top-level
  \<^verbatim>\<open>spec\<close> member (depth 1), that does not start with \<^verbatim>\<open>http\<close>, is not
  \<^verbatim>\<open>__proto__\<close>, and whose resolved path is a file with a text that is not empty, an
  entry from that url to the text of the file.
\<close>

theorem getData_holds_local_files:
  assumes "getData h p spec = Inr dataFiles"
    and "n \<le> 1" and "nestedSpec n spec = Inr s"
    and "getDataUrls s = Inr urls" and "JStr url \<in> set urls"
    and "\<not> startsWith url ''http''"
    and "files h (dataFilePath h p url) = Some (File txt)"
    and "txt \<noteq> []" and "url \<noteq> ''__proto__''"
  shows "dataFiles url = Some txt"
proof (rule getData_entries [OF assms(1)])
  fix us nested ns
  assume a: "getDataUrls spec = Inr us" "getProp spec ''spec'' = Inr nested"
    "getDataUrls nested = Inr ns"
    and m: "\<And>url. dataFiles url = (case files h (dataFilePath h p url) of
                Some (File txt) \<Rightarrow>
                  if JStr url \<in> set (us @ ns) \<and> \<not> startsWith url ''http'' \<and>
                     txt \<noteq> [] \<and> url \<noteq> ''__proto__'' then Some txt
                  else None
              | _ \<Rightarrow> None)"
  from assms(2) consider "n = 0" | "n = Suc 0" by arith
  then have "JStr url \<in> set (us @ ns)"
  proof cases
    case 1
    with assms(3,4,5) a show ?thesis by simp
  next
    case 2
    with assms(3,4,5) a show ?thesis by simp
  qed
  with m [of url] assms(6-9) show ?thesis by simp
qed

theorem getData_holds_local_files_witness:
  "getData demoHost demoPreview nestedDemo = Inr [''a.csv'' \<mapsto> ''x,y''] \<and>
   nestedSpec 1 nestedDemo = Inr (JObj [(''data'', JObj [(''url'', JStr ''a.csv'')])]) \<and>
   getDataUrls (JObj [(''data'', JObj [(''url'', JStr ''a.csv'')])]) = Inr [JStr ''a.csv''] \<and>
   \<not> startsWith ''a.csv'' ''http'' \<and>
   files demoHost (dataFilePath demoHost demoPreview ''a.csv'') = Some (File ''x,y'') \<and>
   [''a.csv'' \<mapsto> ''x,y''] ''a.csv'' = Some ''x,y''"
proof -
  have g: "getData demoHost demoPreview nestedDemo = Inr [''a.csv'' \<mapsto> ''x,y'']"
    by (rule getData_nestedDemo)
  have n: "nestedSpec 1 nestedDemo = Inr (JObj [(''data'', JObj [(''url'', JStr ''a.csv'')])])"
    by (simp add: nestedDemo_def)
  have u: "getDataUrls (JObj [(''data'', JObj [(''url'', JStr ''a.csv'')])]) = Inr [JStr ''a.csv'']"
    by (simp add: getDataUrls.simps dataRefs_def concat_js_def)
  have l: "\<not> startsWith ''a.csv'' ''http''" by (simp add: startsWith_def)
  have f: "files demoHost (dataFilePath demoHost demoPreview ''a.csv'') = Some (File ''x,y'')"
    by (simp add: demo_path demo_files)
  have "[''a.csv'' \<mapsto> ''x,y''] ''a.csv'' = Some ''x,y''"
    by (rule getData_holds_local_files [OF g _ n u _ l f]) simp_all
  with g n u l f show ?thesis by (intro conjI)
qed

text \<open>
  Claim C2 as stated fails. A data url under two nested \<^verbatim>\<open>spec\<close> members is collected by
  the walk from that nested spec, is local and names an existing file, and has no entry in
  the map; nor has the url of an existing empty file, or of an existing file named
  \<^verbatim>\<open>__proto__\<close>, both collected from the spec itself.
\<close>

theorem getData_misses_deeper_specs:
  "nestedSpec 2 deepSpec = Inr (JObj [(''data'', JObj [(''url'', JStr ''a.csv'')])]) \<and>
   getDataUrls (JObj [(''data'', JObj [(''url'', JStr ''a.csv'')])]) = Inr [JStr ''a.csv''] \<and>
   \<not> startsWith ''a.csv'' ''http'' \<and>
   files demoHost (dataFilePath demoHost demoPreview ''a.csv'') = Some (File ''x,y'') \<and>
   entry (getData demoHost demoPreview deepSpec) ''a.csv'' = Inr None \<and>
   JStr ''empty.csv'' \<in> set (projr (getDataUrls mixedSpec)) \<and>
   files demoHost (dataFilePath demoHost demoPreview ''empty.csv'') = Some (File []) \<and>
   entry (getData demoHost demoPreview mixedSpec) ''empty.csv'' = Inr None \<and>
   JStr ''__proto__'' \<in> set (projr (getDataUrls mixedSpec)) \<and>
   files demoHost (dataFilePath demoHost demoPreview ''__proto__'') = Some (File ''p'') \<and>
   entry (getData demoHost demoPreview mixedSpec) ''__proto__'' = Inr None"
proof (intro conjI)
  show "nestedSpec 2 deepSpec = Inr (JObj [(''data'', JObj [(''url'', JStr ''a.csv'')])])"
    by (simp add: numeral_2_eq_2 deepSpec_def)
  show "getDataUrls (JObj [(''data'', JObj [(''url'', JStr ''a.csv'')])]) = Inr [JStr ''a.csv'']"
    by (simp add: getDataUrls.simps dataRefs_def concat_js_def)
  show "\<not> startsWith ''a.csv'' ''http''" by (simp add: startsWith_def)
  show "files demoHost (dataFilePath demoHost demoPreview ''a.csv'') = Some (File ''x,y'')"
    and "files demoHost (dataFilePath demoHost demoPreview ''empty.csv'') = Some (File [])"
    and "files demoHost (dataFilePath demoHost demoPreview ''__proto__'') = Some (File ''p'')"
    by (simp_all add: demo_path demo_files)
  show "entry (getData demoHost demoPreview deepSpec) ''a.csv'' = Inr None"
    by (simp add: entry_def getData_deepSpec)
  show "JStr ''empty.csv'' \<in> set (projr (getDataUrls mixedSpec))"
    and "JStr ''__proto__'' \<in> set (projr (getDataUrls mixedSpec))"
    by (simp_all add: getDataUrls_mixedSpec)
  show "entry (getData demoHost demoPreview mixedSpec) ''empty.csv'' = Inr None"
    and "entry (getData demoHost demoPreview mixedSpec) ''__proto__'' = Inr None"
    by (simp_all add: entry_def getData_mixedSpec)
qed

text \<open>
  Claim C10. An entry of the map that \<^verbatim>\<open>getData\<close> returns is never for a url that starts
  with \<^verbatim>\<open>http\<close>, and always for a path at which a file exists, with that file's text.
  When nothing exists at the path of a url, \<^verbatim>\<open>getFileData\<close> returns \<^verbatim>\<open>null\<close> and does
  not throw; and \<^verbatim>\<open>getData\<close> returns a map whenever the two walks return strings only
  and no local one resolves to something unreadable, so that a missing file never makes it
  throw. The result of \<^verbatim>\<open>getData\<close> is the same on any two file systems that agree on
  the paths of the urls that do not start with \<^verbatim>\<open>http\<close>: a remote url is never looked up
  in the file system.
\<close>

theorem getData_skips_remote_and_missing:
  "(getData h p spec = Inr dataFiles \<and> dataFiles url = Some txt \<longrightarrow>
      \<not> startsWith url ''http'' \<and> files h (dataFilePath h p url) = Some (File txt)) \<and>
   (files h (dataFilePath h p url) = None \<longrightarrow> getFileData h p url = Inr None) \<and>
   (getDataUrls spec = Inr urls \<and> getProp spec ''spec'' = Inr nested \<and>
    getDataUrls nested = Inr nestedUrls \<and>
    (\<forall>v \<in> set (urls @ nestedUrls). \<exists>s. v = JStr s \<and>
       (\<not> startsWith s ''http'' \<longrightarrow> files h (dataFilePath h p s) \<noteq> Some Unreadable)) \<longrightarrow>
      (\<exists>m. getData h p spec = Inr m)) \<and>
   ((\<forall>s. \<not> startsWith s ''http'' \<longrightarrow> fs (dataFilePath h p s) = files h (dataFilePath h p s)) \<longrightarrow>
      getData (h\<lparr>files := fs\<rparr>) p spec = getData h p spec)"
proof (intro conjI impI)
  assume a: "getData h p spec = Inr dataFiles \<and> dataFiles url = Some txt"
  then have g: "getData h p spec = Inr dataFiles" and e: "dataFiles url = Some txt" by simp_all
  show "\<not> startsWith url ''http''"
    by (rule getData_entries [OF g]) (use e in \<open>auto split: option.splits fsnode.splits if_splits\<close>)
  show "files h (dataFilePath h p url) = Some (File txt)"
    by (rule getData_entries [OF g]) (use e in \<open>auto split: option.splits fsnode.splits if_splits\<close>)
next
  assume "files h (dataFilePath h p url) = None"
  then show "getFileData h p url = Inr None" by (simp add: getFileData_def)
next
  assume a: "getDataUrls spec = Inr urls \<and> getProp spec ''spec'' = Inr nested \<and>
    getDataUrls nested = Inr nestedUrls \<and>
    (\<forall>v \<in> set (urls @ nestedUrls). \<exists>s. v = JStr s \<and>
       (\<not> startsWith s ''http'' \<longrightarrow> files h (dataFilePath h p s) \<noteq> Some Unreadable))"
  then have u: "getDataUrls spec = Inr urls" "getProp spec ''spec'' = Inr nested"
    "getDataUrls nested = Inr nestedUrls"
    and str: "\<forall>v \<in> set (urls @ nestedUrls). \<exists>s. v = JStr s \<and>
       (\<not> startsWith s ''http'' \<longrightarrow> files h (dataFilePath h p s) \<noteq> Some Unreadable)"
    by blast+
  have "\<exists>b. isLocalUrl v = Inr b" if "v \<in> set (urls @ nestedUrls)" for v
  proof -
    from str that obtain s where "v = JStr s" by blast
    then show ?thesis by simp
  qed
  then have "\<forall>v \<in> set (urls @ nestedUrls). \<exists>b. isLocalUrl v = Inr b" by blast
  from filterE_total [OF this]
  have f: "filterE isLocalUrl (urls @ nestedUrls) =
      Inr (filter (\<lambda>v. isLocalUrl v = Inr True) (urls @ nestedUrls))" .
  have "\<exists>s. v = JStr s \<and> files h (dataFilePath h p s) \<noteq> Some Unreadable"
    if "v \<in> set (filter (\<lambda>v. isLocalUrl v = Inr True) (urls @ nestedUrls))" for v
  proof -
    from that have m: "v \<in> set (urls @ nestedUrls)" and l: "isLocalUrl v = Inr True" by auto
    from l obtain s where s: "v = JStr s" "\<not> startsWith s ''http''"
      unfolding isLocalUrl_True by blast
    from str m obtain s' where "v = JStr s'"
      "\<not> startsWith s' ''http'' \<longrightarrow> files h (dataFilePath h p s') \<noteq> Some Unreadable" by blast
    with s show ?thesis by simp
  qed
  then have "\<forall>v \<in> set (filter (\<lambda>v. isLocalUrl v = Inr True) (urls @ nestedUrls)).
      \<exists>s. v = JStr s \<and> files h (dataFilePath h p s) \<noteq> Some Unreadable" by blast
  from loadFiles_returns [OF this, of Map.empty] obtain m where
    "loadFiles h p (filter (\<lambda>v. isLocalUrl v = Inr True) (urls @ nestedUrls)) Map.empty = Inr m" ..
  with u f have "getData h p spec = Inr m" by (simp add: getData_def)
  then show "\<exists>m. getData h p spec = Inr m" by blast
next
  assume a: "\<forall>s. \<not> startsWith s ''http'' \<longrightarrow> fs (dataFilePath h p s) = files h (dataFilePath h p s)"
  have fr: "loadFiles (h\<lparr>files := fs\<rparr>) p ls Map.empty = loadFiles h p ls Map.empty"
    if "filterE isLocalUrl vs = Inr ls" for vs ls
  proof (rule loadFiles_frame, intro allI impI)
    fix s
    assume "JStr s \<in> set ls"
    with filterE_Inr [OF that] have "isLocalUrl (JStr s) = Inr True" by simp
    then have "\<not> startsWith s ''http''" by simp
    with a show "fs (dataFilePath h p s) = files h (dataFilePath h p s)" by blast
  qed
  show "getData (h\<lparr>files := fs\<rparr>) p spec = getData h p spec"
  proof (cases "getDataUrls spec")
    case (Inl e)
    then show ?thesis by (simp add: getData_def)
  next
    case us: (Inr urls)
    show ?thesis
    proof (cases "getProp spec ''spec''")
      case (Inl e)
      with us show ?thesis by (simp add: getData_def)
    next
      case n: (Inr nested)
      show ?thesis
      proof (cases "getDataUrls nested")
        case (Inl e)
        with us n show ?thesis by (simp add: getData_def)
      next
        case ns: (Inr nestedUrls)
        show ?thesis
        proof (cases "filterE isLocalUrl (urls @ nestedUrls)")
          case (Inl e)
          with us n ns show ?thesis by (simp add: getData_def)
        next
          case (Inr ls)
          with us n ns fr [OF Inr] show ?thesis by (simp add: getData_def)
        qed
      qed
    qed
  qed
qed

theorem getData_skips_remote_and_missing_witness:
  "getData demoHost demoPreview mixedSpec = Inr [''a.csv'' \<mapsto> ''x,y''] \<and>
   \<not> startsWith ''a.csv'' ''http'' \<and>
   files demoHost (dataFilePath demoHost demoPreview ''a.csv'') = Some (File ''x,y'') \<and>
   files demoHost (dataFilePath demoHost demoPreview ''missing.csv'') = None \<and>
   getFileData demoHost demoPreview ''missing.csv'' = Inr None \<and>
   getDataUrls mixedSpec =
     Inr [JStr ''a.csv'', JStr ''missing.csv'', JStr ''http://example.com/r.csv'',
          JStr ''empty.csv'', JStr ''__proto__''] \<and>
   (\<exists>m. getData demoHost demoPreview mixedSpec = Inr m) \<and>
   getData (demoHost\<lparr>files := (files demoHost)(''/work/http://example.com/r.csv'' \<mapsto> Unreadable)\<rparr>)
     demoPreview mixedSpec = getData demoHost demoPreview mixedSpec"
proof -
  let ?urls = "[JStr ''a.csv'', JStr ''missing.csv'', JStr ''http://example.com/r.csv'',
          JStr ''empty.csv'', JStr ''__proto__'']"
  let ?fs = "(files demoHost)(''/work/http://example.com/r.csv'' \<mapsto> Unreadable)"
  note T = getData_skips_remote_and_missing
  have g: "getData demoHost demoPreview mixedSpec = Inr [''a.csv'' \<mapsto> ''x,y'']"
    by (rule getData_mixedSpec)
  have 1: "\<not> startsWith ''a.csv'' ''http'' \<and>
      files demoHost (dataFilePath demoHost demoPreview ''a.csv'') = Some (File ''x,y'')"
    by (rule T [where url = "''a.csv''" and spec = mixedSpec
          and dataFiles = "[''a.csv'' \<mapsto> ''x,y'']", THEN conjunct1, THEN mp])
      (simp add: g)
  have m: "files demoHost (dataFilePath demoHost demoPreview ''missing.csv'') = None"
    by (simp add: demo_path demo_files)
  have 2: "getFileData demoHost demoPreview ''missing.csv'' = Inr None"
    by (rule T [THEN conjunct2, THEN conjunct1, THEN mp]) (rule m)
  have u: "getDataUrls mixedSpec = Inr ?urls" by (rule getDataUrls_mixedSpec)
  have s: "getProp mixedSpec ''spec'' = Inr JUndefined" by (simp add: mixedSpec_def)
  have e: "getDataUrls JUndefined = Inr []" by (simp add: getDataUrls.simps)
  have r: "\<forall>v \<in> set (?urls @ []). \<exists>s. v = JStr s \<and>
       (\<not> startsWith s ''http'' \<longrightarrow>
          files demoHost (dataFilePath demoHost demoPreview s) \<noteq> Some Unreadable)"
    by (simp add: demo_path demo_files)
  have 3: "\<exists>m. getData demoHost demoPreview mixedSpec = Inr m"
    by (rule T [where urls = ?urls and nested = JUndefined and nestedUrls = "[]",
          THEN conjunct2, THEN conjunct2, THEN conjunct1, THEN mp])
      (intro conjI, rule u, rule s, rule e, rule r)
  have a: "\<forall>s. \<not> startsWith s ''http'' \<longrightarrow>
      ?fs (dataFilePath demoHost demoPreview s) = files demoHost (dataFilePath demoHost demoPreview s)"
    by (auto simp: demo_path startsWith_def)
  have 4: "getData (demoHost\<lparr>files := ?fs\<rparr>) demoPreview mixedSpec
      = getData demoHost demoPreview mixedSpec"
    by (rule T [THEN conjunct2, THEN conjunct2, THEN conjunct2, THEN mp]) (rule a)
  from g 1 m 2 u 3 4 show ?thesis by (intro conjI) simp_all
qed

end
